theory Spec2Isabelle
  imports Complex_Main
begin

section \<open>Signal utilities of pdkit (\<open>pdkit/utils.py\<close>)\<close>

text \<open>
  The functions of \<open>pdkit/utils.py\<close> that work on an in-memory signal, as HOL functions.
  A signal is a list of reals: rounding of floating point numbers is not modelled, every
  sum, product and comparison is the exact one. What Python raises is a value of
  \<open>error\<close> on the left of a sum type.
\<close>

subsection \<open>Errors\<close>

datatype error =
    SystemExit string
  | IOError string
  | IndexError
  | ValueError
  | ZeroDivisionError
  | OverflowError

subsection \<open>\<open>peakdet\<close>: the data\<close>

text \<open>
  The running maximum starts at \<open>-np.inf\<close> and the running minimum at \<open>np.inf\<close>; a
  \<open>bound\<close> is such a value. The positions \<open>mnpos\<close> and \<open>mxpos\<close> start at \<open>np.nan\<close>,
  which is \<open>None\<close> here.
\<close>

datatype bound = NegInf | Fin real | PosInf

fun gt_bound :: "real \<Rightarrow> bound \<Rightarrow> bool" where
  "gt_bound t NegInf = True"
| "gt_bound t (Fin m) = (m < t)"
| "gt_bound t PosInf = False"

fun lt_bound :: "real \<Rightarrow> bound \<Rightarrow> bool" where
  "lt_bound t NegInf = False"
| "lt_bound t (Fin m) = (t < m)"
| "lt_bound t PosInf = True"

fun bound_add :: "bound \<Rightarrow> real \<Rightarrow> bound" where
  "bound_add NegInf d = NegInf"
| "bound_add (Fin m) d = Fin (m + d)"
| "bound_add PosInf d = PosInf"

text \<open>The argument \<open>delta\<close> as Python passes it: a number, or something \<open>np.isscalar\<close> refuses.\<close>

datatype pyarg = PyScalar real | PyArray "real list"

fun isscalar :: "pyarg \<Rightarrow> bool" where
  "isscalar (PyScalar d) = True"
| "isscalar (PyArray ds) = False"

fun scalar_of :: "pyarg \<Rightarrow> real" where
  "scalar_of (PyScalar d) = d"
| "scalar_of (PyArray ds) = 0"

type_synonym extremum = "real option \<times> bound"

record pk_state =
  mn :: bound
  mx :: bound
  mnpos :: "real option"
  mxpos :: "real option"
  lookformax :: bool
  maxtab :: "extremum list"
  mintab :: "extremum list"

subsection \<open>\<open>peakdet\<close>: the scan\<close>

definition pk_init :: pk_state where
  "pk_init = \<lparr> mn = PosInf, mx = NegInf, mnpos = None, mxpos = None,
               lookformax = True, maxtab = [], mintab = [] \<rparr>"

text \<open>One pass of the body of \<open>for i in np.arange(len(v))\<close>.\<close>

definition pk_step :: "real list \<Rightarrow> real list \<Rightarrow> real \<Rightarrow> nat \<Rightarrow> pk_state \<Rightarrow> pk_state" where
  "pk_step v x delta i s =
     (let this = v ! i;
          s1 = (if gt_bound this (mx s) then s\<lparr> mx := Fin this, mxpos := Some (x ! i) \<rparr> else s);
          s2 = (if lt_bound this (mn s1) then s1\<lparr> mn := Fin this, mnpos := Some (x ! i) \<rparr> else s1)
      in if lookformax s2 then
           (if lt_bound this (bound_add (mx s2) (- delta)) then
              s2\<lparr> maxtab := maxtab s2 @ [(mxpos s2, mx s2)],
                  mn := Fin this, mnpos := Some (x ! i), lookformax := False \<rparr>
            else s2)
         else
           (if gt_bound this (bound_add (mn s2) delta) then
              s2\<lparr> mintab := mintab s2 @ [(mnpos s2, mn s2)],
                  mx := Fin this, mxpos := Some (x ! i), lookformax := True \<rparr>
            else s2))"

text \<open>The state after the first \<open>k\<close> samples, and the whole loop.\<close>

definition pk_scan :: "real list \<Rightarrow> real list \<Rightarrow> real \<Rightarrow> nat \<Rightarrow> pk_state" where
  "pk_scan v x delta k = fold (pk_step v x delta) [0..<k] pk_init"

definition peakdet :: "real list \<Rightarrow> pyarg \<Rightarrow> real list option
    \<Rightarrow> error + (extremum list \<times> extremum list)" where
  "peakdet signal delta x =
     (let x' = (case x of None \<Rightarrow> map real [0..<length signal] | Some xs \<Rightarrow> xs);
          v = signal
      in if length v \<noteq> length x' then
           Inl (SystemExit ''Input vectors v and x must have same length'')
         else if \<not> isscalar delta then
           Inl (SystemExit ''Input argument delta must be a scalar'')
         else if scalar_of delta \<le> 0 then
           Inl (SystemExit ''Input argument delta must be positive'')
         else
           (let s = pk_scan v x' (scalar_of delta) (length v)
            in Inr (maxtab s, mintab s)))"

subsection \<open>\<open>crossings_nonzero_pos2neg\<close>\<close>

text \<open>What the caller passes as \<open>data\<close>: a numpy array, a list, or anything else.\<close>

datatype pydata = NdArray "real list" | PyList "real list" | PyOther

text \<open>\<open>mask.nonzero()[0]\<close>: the indices at which a boolean array holds \<open>True\<close>.\<close>

definition nonzero :: "bool list \<Rightarrow> nat list" where
  "nonzero bs = filter (\<lambda>i. bs ! i) [0..<length bs]"

definition crossings_mask :: "real list \<Rightarrow> nat list" where
  "crossings_mask xs =
     (let pos = map (\<lambda>x. 0 < x) xs
      in nonzero (map2 (\<lambda>a b. a \<and> \<not> b) (butlast pos) (tl pos)))"

definition crossings_nonzero_pos2neg :: "pydata \<Rightarrow> error + nat list" where
  "crossings_nonzero_pos2neg data =
     (case data of
        NdArray xs \<Rightarrow> Inr (crossings_mask xs)
      | PyList xs \<Rightarrow> Inr (crossings_mask xs)
      | PyOther \<Rightarrow> Inl (IOError ''data should be a numpy array''))"

subsection \<open>\<open>numerical_integration\<close>\<close>

text \<open>
  \<open>signal[1:]\<close> is \<open>tl\<close>, \<open>signal[:-1]\<close> is \<open>butlast\<close>; both are empty on the empty list, as
  in Python. Dividing a Python number by zero raises.
\<close>

definition numerical_integration :: "real list \<Rightarrow> real \<Rightarrow> error + real" where
  "numerical_integration signal sampling_frequency =
     (if sampling_frequency = 0 then Inl ZeroDivisionError
      else
        (let integrate = sum_list (tl signal) / sampling_frequency + sum_list (butlast signal)
         in Inr (integrate / (sampling_frequency * 2))))"

subsection \<open>Arrays of floating point numbers\<close>

text \<open>
  numpy does not raise when it divides by zero: the quotient is \<open>nan\<close> or an infinity. A
  coefficient is therefore a \<open>real option\<close>, where \<open>None\<close> stands for a value that is not a
  finite number or that was computed from such a value; the model does not tell these apart.
\<close>

fun fdiv :: "real option \<Rightarrow> real option \<Rightarrow> real option" where
  "fdiv (Some a) (Some b) = (if b = 0 then None else Some (a / b))"
| "fdiv a b = None"

fun fadd :: "real option \<Rightarrow> real option \<Rightarrow> real option" where
  "fadd (Some a) (Some b) = Some (a + b)"
| "fadd a b = None"

fun fsub :: "real option \<Rightarrow> real option \<Rightarrow> real option" where
  "fsub (Some a) (Some b) = Some (a - b)"
| "fsub a b = None"

fun fmul :: "real option \<Rightarrow> real option \<Rightarrow> real option" where
  "fmul (Some a) (Some b) = Some (a * b)"
| "fmul a b = None"

fun fabs :: "real option \<Rightarrow> real option" where
  "fabs (Some a) = Some \<bar>a\<bar>"
| "fabs None = None"

fun fmax :: "real option \<Rightarrow> real option \<Rightarrow> real option" where
  "fmax (Some a) (Some b) = Some (max a b)"
| "fmax a b = None"

text \<open>\<open>np.max\<close> of a non-empty array.\<close>

fun np_max :: "real option list \<Rightarrow> real option" where
  "np_max [] = None"
| "np_max (c # cs) = fold fmax cs c"

text \<open>
  \<open>np.linspace(start, stop, num)\<close>: \<open>num\<close> evenly spaced values, the last one set to
  \<open>stop\<close> when there are at least two.
\<close>

definition linspace :: "real option \<Rightarrow> real option \<Rightarrow> nat \<Rightarrow> real option list" where
  "linspace start stop num =
     (if num = 0 then []
      else if num = 1 then [start]
      else map (\<lambda>k. fadd (fmul (Some (real k)) (fdiv (fsub stop start) (Some (real (num - 1))))) start)
             [0..<num - 1] @ [stop])"

text \<open>
  The full correlation of two real sequences, by the formula of scipy's documentation:
  entry \<open>k\<close> is the sum over \<open>l\<close> of \<open>a[l] * v[l - k + N - 1]\<close> with \<open>N\<close> the larger of the two
  lengths and \<open>v\<close> read as \<open>0\<close> outside its range, for \<open>k = 0, ..., len(a) + len(v) - 2\<close>.
\<close>

definition correlation_sums :: "real list \<Rightarrow> real list \<Rightarrow> real list" where
  "correlation_sums a v =
     (let N = max (length a) (length v)
      in map (\<lambda>k. sum_list (map (\<lambda>l. if k \<le> l + (N - 1) \<and> l + (N - 1) - k < length v
                                      then a ! l * v ! (l + (N - 1) - k) else 0)
                                [0..<length a]))
           [0..<length a + length v - 1])"

text \<open>
  \<open>np.correlate(a, v, mode='full')\<close> and \<open>scipy.signal.correlate(a, v, 'full')\<close>: both raise
  \<open>ValueError\<close> on an empty array, and both return the sums above otherwise.
\<close>

definition correlate_full :: "real list \<Rightarrow> real list \<Rightarrow> error + real list" where
  "correlate_full a v =
     (if a = [] \<or> v = [] then Inl ValueError else Inr (correlation_sums a v))"

subsection \<open>\<open>autocorrelation\<close>\<close>

definition np_mean :: "real list \<Rightarrow> real" where
  "np_mean xs = sum_list xs / real (length xs)"

text \<open>\<open>ndarray.var()\<close>: the mean of the squared distances to the mean.\<close>

definition np_var :: "real list \<Rightarrow> real" where
  "np_var xs = np_mean (map (\<lambda>x. \<bar>x - np_mean xs\<bar> ^ 2) xs)"

text \<open>
  The variance and the mean are taken first; \<open>np.correlate\<close> then refuses an empty array.
  \<open>r[-n:]\<close> keeps the last \<open>n\<close> entries and \<open>np.arange(n, 0, -1)\<close> is \<open>n, n - 1, ..., 1\<close>.
\<close>

definition autocorrelation :: "real list \<Rightarrow> error + real option list" where
  "autocorrelation signal0 =
     (let n = length signal0;
          variance = np_var signal0;
          signal = map (\<lambda>x. x - np_mean signal0) signal0
      in case correlate_full signal signal of
           Inl e \<Rightarrow> Inl e
         | Inr full \<Rightarrow>
             (let r = drop (length full - n) full
              in Inr (map2 (\<lambda>rk w. fdiv (Some rk) (Some (variance * w))) r
                        (map real (rev [1..<Suc n])))))"

subsection \<open>\<open>autocorrelate\<close>\<close>

text \<open>
  \<open>unbias\<close> and \<open>normalize\<close> are an integer or \<open>None\<close> (\<open>normalize\<close> is written
  \<open>normalize'\<close>, the plain name being a constant of HOL). \<open>np.int\<close> is Python's \<open>int\<close>, so
  \<open>np.int(coefficients.size/2)\<close> is the size halved and rounded down. \<open>if unbias:\<close> is Python's truth
  test: \<open>None\<close> and \<open>0\<close> are false.
\<close>

definition truthy :: "int option \<Rightarrow> bool" where
  "truthy u = (case u of None \<Rightarrow> False | Some k \<Rightarrow> k \<noteq> 0)"

text \<open>
  The block under \<open># Unbiased:\<close>. Reading \<open>coefficients[0]\<close> of an empty array would raise;
  \<open>autocorrelate\<close> never passes one, its coefficients being as many as the samples.
\<close>

definition unbias_step :: "int option \<Rightarrow> real option list \<Rightarrow> error + real option list" where
  "unbias_step unbias coefficients =
     (let N = length coefficients
      in if truthy unbias then
           (if unbias = Some 1 then
              Inr (map2 fdiv coefficients (map (\<lambda>k. Some (real N - real k)) [0..<N]))
            else if unbias = Some 2 then
              (if coefficients = [] then Inl IndexError
               else
                 (let coefficient_ratio = fdiv (hd coefficients) (last coefficients)
                  in Inr (map2 fdiv coefficients (linspace coefficient_ratio (Some 1) N))))
            else Inl (IOError ''unbias should be set to 1, 2, or None''))
         else Inr coefficients)"

text \<open>The block under \<open># Normalize:\<close>, with the same remark on an empty array.\<close>

definition normalize_step :: "int option \<Rightarrow> real option list \<Rightarrow> error + real option list" where
  "normalize_step normalize' coefficients =
     (if truthy normalize' then
        (if normalize' = Some 1 then
           (if coefficients = [] then Inl IndexError
            else Inr (map (\<lambda>c. fdiv c (fabs (hd coefficients))) coefficients))
         else if normalize' = Some 2 then
           (if coefficients = [] then Inl ValueError
            else Inr (map (\<lambda>c. fdiv c (np_max (map fabs coefficients))) coefficients))
         else Inl (IOError ''normalize should be set to 1, 2, or None''))
      else Inr coefficients)"

text \<open>
  \<open>correlate\<close> comes first and raises on the empty signal, before \<open>unbias\<close> and
  \<open>normalize\<close> are looked at.
\<close>

definition autocorrelate :: "real list \<Rightarrow> int option \<Rightarrow> int option
    \<Rightarrow> error + (real option list \<times> nat)" where
  "autocorrelate data unbias normalize' =
     (case correlate_full data data of
        Inl e \<Rightarrow> Inl e
      | Inr full \<Rightarrow>
          (let size = length full div 2;
               coefficients = map Some (drop size full);
               N = length coefficients
           in case unbias_step unbias coefficients of
                Inl e \<Rightarrow> Inl e
              | Inr unbiased \<Rightarrow>
                  (case normalize_step normalize' unbiased of
                     Inl e \<Rightarrow> Inl e
                   | Inr normalized \<Rightarrow> Inr (normalized, N))))"

subsection \<open>\<open>compute_interpeak\<close>\<close>







subsection \<open>The autocorrelation sums\<close>

text \<open>
  The sum at lag \<open>j\<close>: the signal against itself delayed by \<open>j\<close> samples. The properties
  below show that the second half of the full self-correlation holds these sums.
\<close>

definition lag :: "real list \<Rightarrow> nat \<Rightarrow> real" where
  "lag a j = (\<Sum>l = j..<length a. a ! l * a ! (l - j))"

section \<open>\<open>peakdet\<close>: properties\<close>

lemma pk_step_constant:
  assumes "v ! i = c" and "0 < delta"
    and "maxtab s = []" and "mintab s = []" and "lookformax s"
    and "mx s = NegInf \<or> mx s = Fin c"
  shows "maxtab (pk_step v x delta i s) = [] \<and> mintab (pk_step v x delta i s) = []
     \<and> lookformax (pk_step v x delta i s)
     \<and> (mx (pk_step v x delta i s) = NegInf \<or> mx (pk_step v x delta i s) = Fin c)"
  using assms by (auto simp: pk_step_def Let_def)

lemma pk_fold_constant:
  assumes "\<forall>i \<in> set js. v ! i = c" and "0 < delta"
    and "maxtab s = []" and "mintab s = []" and "lookformax s"
    and "mx s = NegInf \<or> mx s = Fin c"
  shows "maxtab (fold (pk_step v x delta) js s) = []
     \<and> mintab (fold (pk_step v x delta) js s) = []"
  using assms
proof (induction js arbitrary: s)
  case Nil
  then show ?case by simp
next
  case (Cons j js)
  have "v ! j = c" using Cons.prems(1) by simp
  from pk_step_constant [OF this Cons.prems(2-6)]
  show ?case
    using Cons.IH [of "pk_step v x delta j s"] Cons.prems(1,2) by simp
qed

text \<open>
  C1. A constant signal has no peak and no trough: for every \<open>delta > 0\<close>, and for the
  default positions as for any positions of the signal's length, \<open>peakdet\<close> returns an
  empty table of maxima and an empty table of minima.
\<close>

theorem peakdet_constant_signal:
  assumes "0 < delta"
    and "x = None \<or> (\<exists>xs. x = Some xs \<and> length xs = n)"
  shows "peakdet (replicate n c) (PyScalar delta) x = Inr ([], [])"
proof -
  define x' where "x' = (case x of None \<Rightarrow> map real [0..<n] | Some xs \<Rightarrow> xs)"
  have len: "length x' = n"
    using assms(2) by (auto simp: x'_def)
  have "\<forall>i \<in> set [0..<n]. replicate n c ! i = c" by simp
  from pk_fold_constant [OF this assms(1), of pk_init x']
  have "maxtab (pk_scan (replicate n c) x' delta n) = []
      \<and> mintab (pk_scan (replicate n c) x' delta n) = []"
    by (simp add: pk_scan_def pk_init_def)
  moreover have "(case x of None \<Rightarrow> map real [0..<length (replicate n c)] | Some xs \<Rightarrow> xs) = x'"
    by (simp add: x'_def split: option.split)
  ultimately show ?thesis
    using len assms(1) unfolding peakdet_def Let_def by simp
qed

theorem peakdet_constant_signal_witness:
  "peakdet [5, 5, 5] (PyScalar 1) None = Inr ([], [])
   \<and> peakdet [5, 5, 5] (PyScalar 1) (Some [10, 20, 30]) = Inr ([], [])"
proof -
  have r: "replicate 3 (5::real) = [5, 5, 5]" by (simp add: numeral_3_eq_3)
  have a: "peakdet (replicate 3 5) (PyScalar 1) None = Inr ([], [])"
    by (rule peakdet_constant_signal) simp_all
  have b: "peakdet (replicate 3 5) (PyScalar 1) (Some [10, 20, 30]) = Inr ([], [])"
    by (rule peakdet_constant_signal) simp_all
  show ?thesis using a b by (simp only: r)
qed

lemma pk_scan_Suc: "pk_scan v x delta (Suc k) = pk_step v x delta k (pk_scan v x delta k)"
  by (simp add: pk_scan_def)

lemma pk_step_cases:
  "(maxtab (pk_step v x delta i s) = maxtab s \<and> mintab (pk_step v x delta i s) = mintab s
      \<and> lookformax (pk_step v x delta i s) = lookformax s)
   \<or> (lookformax s \<and> \<not> lookformax (pk_step v x delta i s)
      \<and> (\<exists>e. maxtab (pk_step v x delta i s) = maxtab s @ [e])
      \<and> mintab (pk_step v x delta i s) = mintab s)
   \<or> (\<not> lookformax s \<and> lookformax (pk_step v x delta i s)
      \<and> (\<exists>e. mintab (pk_step v x delta i s) = mintab s @ [e])
      \<and> maxtab (pk_step v x delta i s) = maxtab s)"
  by (simp add: pk_step_def Let_def)

lemma pk_step_count:
  assumes "length (maxtab s) = length (mintab s) + (if lookformax s then 0 else 1)"
  shows "length (maxtab (pk_step v x delta i s))
       = length (mintab (pk_step v x delta i s)) + (if lookformax (pk_step v x delta i s) then 0 else 1)"
  using assms pk_step_cases [of v x delta i s] by (auto split: if_splits)

lemma pk_scan_count:
  "length (maxtab (pk_scan v x delta k))
     = length (mintab (pk_scan v x delta k)) + (if lookformax (pk_scan v x delta k) then 0 else 1)"
proof (induction k)
  case 0
  show ?case by (simp add: pk_scan_def pk_init_def)
next
  case (Suc k)
  show ?case unfolding pk_scan_Suc by (rule pk_step_count [OF Suc])
qed

lemma peakdet_Inr:
  assumes "peakdet v delta x = Inr r"
  shows "\<exists>d. delta = PyScalar d \<and> 0 < d
     \<and> length (case x of None \<Rightarrow> map real [0..<length v] | Some xs \<Rightarrow> xs) = length v
     \<and> r = (maxtab (pk_scan v (case x of None \<Rightarrow> map real [0..<length v] | Some xs \<Rightarrow> xs) d (length v)),
            mintab (pk_scan v (case x of None \<Rightarrow> map real [0..<length v] | Some xs \<Rightarrow> xs) d (length v)))"
  using assms by (cases delta) (auto simp: peakdet_def Let_def split: if_splits)

lemma peakdet_two_peaks: "peakdet [0, 2, 0, 2, 0] (PyScalar 1) None = Inr ([(Some 1, Fin 2), (Some 3, Fin 2)], [(Some 2, Fin 0)])"
  by (simp add: peakdet_def pk_scan_def pk_init_def pk_step_def Let_def upt_conv_Cons)

text \<open>
  C8. \<open>peakdet\<close> stops with \<open>sys.exit\<close> exactly when positions are given whose length
  differs from the signal's, when \<open>delta\<close> is not a scalar, or when \<open>delta \<le> 0\<close>; on every
  other input it returns its two tables.
\<close>

theorem peakdet_fails_iff:
  "(\<exists>msg. peakdet v delta x = Inl (SystemExit msg))
     = ((\<exists>xs. x = Some xs \<and> length xs \<noteq> length v)
        \<or> (\<exists>ds. delta = PyArray ds) \<or> (\<exists>d. delta = PyScalar d \<and> d \<le> 0))
   \<and> (\<exists>r. peakdet v delta x = Inr r)
     = (\<not> ((\<exists>xs. x = Some xs \<and> length xs \<noteq> length v)
        \<or> (\<exists>ds. delta = PyArray ds) \<or> (\<exists>d. delta = PyScalar d \<and> d \<le> 0)))"
  by (cases delta; cases x) (auto simp: peakdet_def Let_def)


theorem peakdet_fails_iff_witness:
  "(\<exists>msg. peakdet [1, 2] (PyScalar 0) None = Inl (SystemExit msg))
   \<and> (\<exists>msg. peakdet [1, 2] (PyArray [1]) None = Inl (SystemExit msg))
   \<and> (\<exists>msg. peakdet [1, 2] (PyScalar 1) (Some [0]) = Inl (SystemExit msg))
   \<and> (\<exists>r. peakdet [1, 2] (PyScalar 1) (Some [0, 1]) = Inr r)"
  using peakdet_fails_iff [of "[1, 2]" "PyScalar 0" None]
    peakdet_fails_iff [of "[1, 2]" "PyArray [1]" None]
    peakdet_fails_iff [of "[1, 2]" "PyScalar 1" "Some [0]"]
    peakdet_fails_iff [of "[1, 2]" "PyScalar 1" "Some [0, 1]"]
  by simp

text \<open>
  C10. The extrema that \<open>peakdet\<close> confirms alternate in scan order, beginning with a
  maximum. The scan starts seeking a maximum with both tables empty; each sample leaves
  the tables and the mode as they are, or appends one maximum while seeking a maximum and
  turns to seeking a minimum, or appends one minimum while seeking a minimum and turns to
  seeking a maximum. So after every number \<open>k\<close> of samples the maxima are as many as the
  minima, or one more, and this holds of the two tables returned.
\<close>

theorem peakdet_alternates:
  assumes "peakdet v delta x = Inr (maxima, minima)"
    and "x' = (case x of None \<Rightarrow> map real [0..<length v] | Some xs \<Rightarrow> xs)"
    and "d = scalar_of delta"
  shows "(length maxima = length minima \<or> length maxima = length minima + 1)
    \<and> lookformax (pk_scan v x' d 0) \<and> maxtab (pk_scan v x' d 0) = [] \<and> mintab (pk_scan v x' d 0) = []
    \<and> maxima = maxtab (pk_scan v x' d (length v)) \<and> minima = mintab (pk_scan v x' d (length v))
    \<and> (\<forall>k. length (maxtab (pk_scan v x' d k))
            = length (mintab (pk_scan v x' d k)) + (if lookformax (pk_scan v x' d k) then 0 else 1))
    \<and> (\<forall>k. (maxtab (pk_scan v x' d (Suc k)) = maxtab (pk_scan v x' d k)
              \<and> mintab (pk_scan v x' d (Suc k)) = mintab (pk_scan v x' d k)
              \<and> lookformax (pk_scan v x' d (Suc k)) = lookformax (pk_scan v x' d k))
          \<or> (lookformax (pk_scan v x' d k) \<and> \<not> lookformax (pk_scan v x' d (Suc k))
              \<and> (\<exists>e. maxtab (pk_scan v x' d (Suc k)) = maxtab (pk_scan v x' d k) @ [e])
              \<and> mintab (pk_scan v x' d (Suc k)) = mintab (pk_scan v x' d k))
          \<or> (\<not> lookformax (pk_scan v x' d k) \<and> lookformax (pk_scan v x' d (Suc k))
              \<and> (\<exists>e. mintab (pk_scan v x' d (Suc k)) = mintab (pk_scan v x' d k) @ [e])
              \<and> maxtab (pk_scan v x' d (Suc k)) = maxtab (pk_scan v x' d k)))"
proof -
  from peakdet_Inr [OF assms(1)] obtain d0 where
    d0: "delta = PyScalar d0" and
    r: "(maxima, minima) = (maxtab (pk_scan v x' d0 (length v)), mintab (pk_scan v x' d0 (length v)))"
    unfolding assms(2) by blast
  have dd: "d0 = d" using d0 assms(3) by simp
  have tabs: "maxima = maxtab (pk_scan v x' d (length v))" "minima = mintab (pk_scan v x' d (length v))"
    using r dd by simp_all
  have cnt: "\<And>k. length (maxtab (pk_scan v x' d k))
            = length (mintab (pk_scan v x' d k)) + (if lookformax (pk_scan v x' d k) then 0 else 1)"
    by (rule pk_scan_count)
  have fin: "length maxima = length minima \<or> length maxima = length minima + 1"
    using cnt [of "length v"] unfolding tabs by (simp split: if_splits)
  have start: "lookformax (pk_scan v x' d 0) \<and> maxtab (pk_scan v x' d 0) = [] \<and> mintab (pk_scan v x' d 0) = []"
    by (simp add: pk_scan_def pk_init_def)
  have step: "\<And>k. (maxtab (pk_scan v x' d (Suc k)) = maxtab (pk_scan v x' d k)
              \<and> mintab (pk_scan v x' d (Suc k)) = mintab (pk_scan v x' d k)
              \<and> lookformax (pk_scan v x' d (Suc k)) = lookformax (pk_scan v x' d k))
          \<or> (lookformax (pk_scan v x' d k) \<and> \<not> lookformax (pk_scan v x' d (Suc k))
              \<and> (\<exists>e. maxtab (pk_scan v x' d (Suc k)) = maxtab (pk_scan v x' d k) @ [e])
              \<and> mintab (pk_scan v x' d (Suc k)) = mintab (pk_scan v x' d k))
          \<or> (\<not> lookformax (pk_scan v x' d k) \<and> lookformax (pk_scan v x' d (Suc k))
              \<and> (\<exists>e. mintab (pk_scan v x' d (Suc k)) = mintab (pk_scan v x' d k) @ [e])
              \<and> maxtab (pk_scan v x' d (Suc k)) = maxtab (pk_scan v x' d k))"
    unfolding pk_scan_Suc by (rule pk_step_cases)
  show ?thesis
    using fin start tabs cnt step by blast
qed

theorem peakdet_alternates_witness:
  "peakdet [0, 2, 0, 2, 0] (PyScalar 1) None
      = Inr ([(Some 1, Fin 2), (Some 3, Fin 2)], [(Some 2, Fin 0)])
   \<and> (length [(Some 1, Fin 2), (Some 3, Fin 2) :: extremum]
          = length [(Some 2, Fin 0) :: extremum]
      \<or> length [(Some 1, Fin 2), (Some 3, Fin 2) :: extremum]
          = length [(Some 2, Fin 0) :: extremum] + 1)"
  by (rule conjI [OF peakdet_two_peaks conjunct1 [OF peakdet_alternates [OF peakdet_two_peaks refl refl]]])


section \<open>\<open>crossings_nonzero_pos2neg\<close> and \<open>numerical_integration\<close>: properties\<close>

lemma crossings_mask_filter:
  "crossings_mask xs = filter (\<lambda>i. 0 < xs ! i \<and> xs ! (i + 1) \<le> 0) [0..<length xs - 1]"
proof -
  let ?pos = "map (\<lambda>x. 0 < x) xs"
  let ?m = "map2 (\<lambda>a b. a \<and> \<not> b) (butlast ?pos) (tl ?pos)"
  have len: "length ?m = length xs - 1" by simp
  have nth: "?m ! i = (0 < xs ! i \<and> xs ! (i + 1) \<le> 0)" if "i < length xs - 1" for i
    using that by (simp add: nth_butlast nth_tl not_less)
  have "filter (\<lambda>i. ?m ! i) [0..<length xs - 1]
      = filter (\<lambda>i. 0 < xs ! i \<and> xs ! (i + 1) \<le> 0) [0..<length xs - 1]"
    by (rule filter_cong) (simp_all add: nth del: nth_map nth_zip)
  then show ?thesis
    unfolding crossings_mask_def nonzero_def Let_def len .
qed

text \<open>
  C7. On a numpy array or a list, \<open>crossings_nonzero_pos2neg\<close> returns, in ascending
  order, exactly the indices \<open>i\<close> with \<open>signal[i] > 0\<close> and \<open>signal[i+1] \<le> 0\<close>; on
  \<open>[1, 2, -1, -2, 3]\<close> it returns \<open>[1]\<close>.
\<close>

theorem crossings_nonzero_pos2neg_spec:
  "crossings_nonzero_pos2neg (NdArray xs)
     = Inr (filter (\<lambda>i. 0 < xs ! i \<and> xs ! (i + 1) \<le> 0) [0..<length xs - 1])
   \<and> crossings_nonzero_pos2neg (PyList xs)
     = Inr (filter (\<lambda>i. 0 < xs ! i \<and> xs ! (i + 1) \<le> 0) [0..<length xs - 1])
   \<and> crossings_nonzero_pos2neg (PyList [1, 2, -1, -2, 3]) = Inr [1]"
proof -
  have "crossings_mask [1, 2, -1, -2, 3] = [1]"
    by (simp add: crossings_mask_def nonzero_def upt_conv_Cons)
  then show ?thesis
    by (simp add: crossings_nonzero_pos2neg_def crossings_mask_filter)
qed

text \<open>
  C2. The integral of a constant signal \<open>c\<close> of \<open>N\<close> samples at rate \<open>r\<close> is \<open>c (N - 1) / r\<close>.
  The code divides the first of its two sums by the sampling frequency before it adds
  them: on three samples of value 1 at rate 2 it returns \<open>3/4\<close>, where the integral is 1.
\<close>

theorem numerical_integration_constant_mismatch:
  "numerical_integration [1, 1, 1] 2 = Inr (3 / 4)
   \<and> (1::real) * (real (length [1, 1, 1 :: real]) - 1) / 2 = 1"
  by (simp add: numerical_integration_def)

text \<open>What the code computes on a constant signal, for every rate but zero.\<close>

lemma numerical_integration_constant:
  assumes "r \<noteq> 0"
  shows "numerical_integration (replicate n c) r = Inr (c * real (n - 1) * (1 + r) / (2 * r\<^sup>2))"
proof -
  have a: "tl (replicate n c) = replicate (n - 1) c"
    by (cases n) simp_all
  have b: "butlast (replicate n c) = replicate (n - 1) c"
    by (simp add: butlast_conv_take)
  show ?thesis using assms unfolding numerical_integration_def a b Let_def
    by (simp add: sum_list_replicate power2_eq_square field_simps)
qed


section \<open>\<open>autocorrelate\<close>: the raw coefficients and the two modes\<close>

lemma length_correlation_sums:
  "length (correlation_sums a a) = 2 * length a - 1"
  by (simp add: correlation_sums_def Let_def mult_2)

lemma length_second_half:
  "length (correlation_sums a a) - length (correlation_sums a a) div 2 = length a"
  unfolding length_correlation_sums by (cases "length a") simp_all

lemma second_half_nonempty:
  "data \<noteq> [] \<Longrightarrow> map Some (drop (length (correlation_sums data data) div 2) (correlation_sums data data)) \<noteq> []"
  using length_second_half [of data] by (cases "length data") auto

text \<open>On the empty signal \<open>correlate\<close> raises, whatever the two modes are.\<close>

lemma autocorrelate_empty: "autocorrelate [] u m = Inl ValueError"
  by (simp add: autocorrelate_def correlate_full_def)

text \<open>On a non-empty signal the two blocks work on the second half of the sums.\<close>

lemma autocorrelate_nonempty:
  assumes "data \<noteq> []"
  shows "autocorrelate data u m =
     (case unbias_step u (map Some (drop (length (correlation_sums data data) div 2)
                                      (correlation_sums data data))) of
        Inl e \<Rightarrow> Inl e
      | Inr unbiased \<Rightarrow>
          (case normalize_step m unbiased of
             Inl e \<Rightarrow> Inl e
           | Inr normalized \<Rightarrow> Inr (normalized, length data)))"
  using assms length_second_half [of data]
  by (simp add: autocorrelate_def correlate_full_def Let_def split: sum.split)

text \<open>
  C3, as the code has it. On a non-empty signal, with \<open>unbias=None\<close> and \<open>normalize=None\<close>,
  \<open>autocorrelate\<close> returns the full self-correlation from index \<open>size // 2\<close> on, unchanged,
  and with it the number \<open>N\<close> of coefficients it returns: the size of the full correlation
  less \<open>size // 2\<close>, which is the length of the signal.
\<close>

theorem autocorrelate_raw:
  assumes "data \<noteq> []"
  shows "autocorrelate data None None
     = Inr (map Some (drop (length (correlation_sums data data) div 2) (correlation_sums data data)),
            length (correlation_sums data data) - length (correlation_sums data data) div 2)
   \<and> length (correlation_sums data data) - length (correlation_sums data data) div 2 = length data"
  unfolding autocorrelate_nonempty [OF assms]
  by (simp add: unbias_step_def normalize_step_def truthy_def length_second_half)

theorem autocorrelate_raw_witness:
  "autocorrelate [1, 2, 3] None None = Inr ([Some 14, Some 8, Some 3], 3)"
proof -
  have s: "correlation_sums [1, 2, 3] [1, 2, 3] = [3, 8, 14, 8, 3]" by code_simp
  have "[1, 2, 3 :: real] \<noteq> []" by simp
  from autocorrelate_raw [OF this] show ?thesis unfolding s by simp
qed

text \<open>
  C3 as stated fails in the count: on the one-sample signal \<open>[1]\<close> the full correlation has
  size 1, half of it rounded down is 0, and \<open>N\<close> is 1.
\<close>

theorem autocorrelate_raw_count_counterexample:
  "autocorrelate [1] None None = Inr ([Some 1], 1)
   \<and> length (correlation_sums [1] [1]) div 2 = 0"
  by code_simp

lemma unbias_step_invalid:
  "truthy unbias \<Longrightarrow> unbias \<noteq> Some 1 \<Longrightarrow> unbias \<noteq> Some 2
   \<Longrightarrow> unbias_step unbias cs = Inl (IOError ''unbias should be set to 1, 2, or None'')"
  by (simp add: unbias_step_def Let_def)

lemma unbias_step_valid:
  "cs \<noteq> [] \<Longrightarrow> \<not> truthy unbias \<or> unbias = Some 1 \<or> unbias = Some 2
   \<Longrightarrow> \<exists>cs'. unbias_step unbias cs = Inr cs' \<and> length cs' = length cs"
  by (auto simp: unbias_step_def Let_def linspace_def truthy_def)

lemma normalize_step_invalid:
  "truthy m \<Longrightarrow> m \<noteq> Some 1 \<Longrightarrow> m \<noteq> Some 2
   \<Longrightarrow> normalize_step m cs = Inl (IOError ''normalize should be set to 1, 2, or None'')"
  by (simp add: normalize_step_def)

lemma normalize_step_valid:
  "cs \<noteq> [] \<Longrightarrow> \<not> truthy m \<or> m = Some 1 \<or> m = Some 2
   \<Longrightarrow> \<exists>cs'. normalize_step m cs = Inr cs'"
  by (auto simp: normalize_step_def truthy_def)

text \<open>
  C9, as the code has it. On a non-empty signal, \<open>autocorrelate\<close> raises \<open>IOError\<close> when
  \<open>unbias\<close> is a non-zero integer other than 1 and 2; it raises \<open>IOError\<close> when \<open>unbias\<close> is
  \<open>None\<close>, 0, 1 or 2 and \<open>normalize\<close> is a non-zero integer other than 1 and 2; and it
  returns when both are \<open>None\<close>, 0, 1 or 2.
\<close>

theorem autocorrelate_mode_errors:
  "(data \<noteq> [] \<and> truthy unbias \<and> unbias \<noteq> Some 1 \<and> unbias \<noteq> Some 2
      \<longrightarrow> autocorrelate data unbias m = Inl (IOError ''unbias should be set to 1, 2, or None''))
   \<and> (data \<noteq> [] \<and> (\<not> truthy unbias \<or> unbias = Some 1 \<or> unbias = Some 2)
        \<and> truthy m \<and> m \<noteq> Some 1 \<and> m \<noteq> Some 2
      \<longrightarrow> autocorrelate data unbias m = Inl (IOError ''normalize should be set to 1, 2, or None''))
   \<and> (data \<noteq> [] \<and> (\<not> truthy unbias \<or> unbias = Some 1 \<or> unbias = Some 2)
        \<and> (\<not> truthy m \<or> m = Some 1 \<or> m = Some 2)
      \<longrightarrow> (\<exists>r. autocorrelate data unbias m = Inr r))"
proof (intro conjI impI)
  assume a: "data \<noteq> [] \<and> truthy unbias \<and> unbias \<noteq> Some 1 \<and> unbias \<noteq> Some 2"
  then have ne: "data \<noteq> []" by simp
  show "autocorrelate data unbias m = Inl (IOError ''unbias should be set to 1, 2, or None'')"
    unfolding autocorrelate_nonempty [OF ne] using a by (simp add: unbias_step_invalid)
next
  assume a: "data \<noteq> [] \<and> (\<not> truthy unbias \<or> unbias = Some 1 \<or> unbias = Some 2)
        \<and> truthy m \<and> m \<noteq> Some 1 \<and> m \<noteq> Some 2"
  let ?cs = "map Some (drop (length (correlation_sums data data) div 2) (correlation_sums data data))"
  have dne: "data \<noteq> []" using a by simp
  have "?cs \<noteq> []" using a second_half_nonempty by blast
  from unbias_step_valid [OF this] a obtain cs' where "unbias_step unbias ?cs = Inr cs'" by blast
  then show "autocorrelate data unbias m = Inl (IOError ''normalize should be set to 1, 2, or None'')"
    unfolding autocorrelate_nonempty [OF dne] using a by (simp add: normalize_step_invalid)
next
  assume a: "data \<noteq> [] \<and> (\<not> truthy unbias \<or> unbias = Some 1 \<or> unbias = Some 2)
        \<and> (\<not> truthy m \<or> m = Some 1 \<or> m = Some 2)"
  let ?cs = "map Some (drop (length (correlation_sums data data) div 2) (correlation_sums data data))"
  have dne: "data \<noteq> []" using a by simp
  have ne: "?cs \<noteq> []" using a second_half_nonempty by blast
  from unbias_step_valid [OF this] a obtain cs' where
    u: "unbias_step unbias ?cs = Inr cs'" and l: "length cs' = length ?cs" by blast
  have "cs' \<noteq> []" using l ne by auto
  from normalize_step_valid [OF this] a obtain cs'' where "normalize_step m cs' = Inr cs''" by blast
  then show "\<exists>r. autocorrelate data unbias m = Inr r"
    unfolding autocorrelate_nonempty [OF dne] using u by simp
qed

theorem autocorrelate_mode_errors_witness:
  "autocorrelate [1, 2] (Some 3) None = Inl (IOError ''unbias should be set to 1, 2, or None'')
   \<and> autocorrelate [1, 2] (Some 1) (Some (- 1)) = Inl (IOError ''normalize should be set to 1, 2, or None'')
   \<and> (\<exists>r. autocorrelate [1, 2] (Some 2) (Some 0) = Inr r)"
  using autocorrelate_mode_errors [where data = "[1, 2]" and unbias = "Some 3" and m = None]
    autocorrelate_mode_errors [where data = "[1, 2]" and unbias = "Some 1" and m = "Some (- 1)"]
    autocorrelate_mode_errors [where data = "[1, 2]" and unbias = "Some 2" and m = "Some 0"]
  by (simp add: truthy_def)

text \<open>
  C9 as stated fails at 0, a value outside \<open>None\<close>, 1, 2 that \<open>if unbias:\<close> and
  \<open>if normalize:\<close> take as \<open>None\<close>: no error is raised.
\<close>

theorem autocorrelate_zero_mode_counterexample:
  "autocorrelate [1] (Some 0) None = Inr ([Some 1], 1)
   \<and> autocorrelate [1] None (Some 0) = Inr ([Some 1], 1)"
  by code_simp


section \<open>The second half of the full self-correlation\<close>

lemma correlation_sums_nth:
  assumes "j < length a"
  shows "correlation_sums a a ! (length a - 1 + j) = lag a j"
proof -
  let ?n = "length a"
  let ?F = "\<lambda>k. sum_list (map (\<lambda>l. if k \<le> l + (?n - 1) \<and> l + (?n - 1) - k < ?n
                                    then a ! l * a ! (l + (?n - 1) - k) else 0) [0..<?n])"
  have ne: "a \<noteq> []" using assms by auto
  have k: "?n - 1 + j < ?n + ?n - 1" using assms by simp
  have cf: "correlation_sums a a = map ?F [0..<?n + ?n - 1]"
    using ne by (simp add: correlation_sums_def Let_def)
  have "correlation_sums a a ! (?n - 1 + j) = ?F ([0..<?n + ?n - 1] ! (?n - 1 + j))"
    unfolding cf using k by (intro nth_map) simp
  also have "[0..<?n + ?n - 1] ! (?n - 1 + j) = ?n - 1 + j"
    using k by (simp del: upt_Suc)
  also have "?F (?n - 1 + j) = (\<Sum>l = 0..<?n. if j \<le> l then a ! l * a ! (l - j) else 0)"
    unfolding interv_sum_list_conv_sum_set_nat
    by (rule sum.cong) (auto simp: assms)
  also have "\<dots> = (\<Sum>l = j..<?n. if j \<le> l then a ! l * a ! (l - j) else 0)"
    by (rule sum.mono_neutral_right) auto
  also have "\<dots> = (\<Sum>l = j..<?n. a ! l * a ! (l - j))"
    by (rule sum.cong) auto
  finally show ?thesis by (simp add: lag_def)
qed

lemma second_half_nth:
  assumes "j < length a"
  shows "drop (length a - 1) (correlation_sums a a) ! j = lag a j"
proof -
  have "a \<noteq> []" using assms by auto
  then have "length (correlation_sums a a) = length a + length a - 1"
    by (simp add: correlation_sums_def Let_def)
  then have "length a - 1 + j < length (correlation_sums a a)"
    using assms by simp
  then show ?thesis using correlation_sums_nth [OF assms] by simp
qed

lemma lag_0: "lag a 0 = (\<Sum>l = 0..<length a. (a ! l)\<^sup>2)"
  by (simp add: lag_def power2_eq_square)

lemma lag_0_sum_list: "lag a 0 = sum_list (map (\<lambda>x. x\<^sup>2) a)"
proof -
  have "sum_list (map (\<lambda>x. x\<^sup>2) (map ((!) a) [0..<length a]))
      = sum_list (map (\<lambda>l. (a ! l)\<^sup>2) [0..<length a])"
    by (simp add: comp_def del: map_nth)
  then have "sum_list (map (\<lambda>x. x\<^sup>2) a) = sum_list (map (\<lambda>l. (a ! l)\<^sup>2) [0..<length a])"
    unfolding map_nth .
  then show ?thesis unfolding lag_0 interv_sum_list_conv_sum_set_nat by simp
qed

lemma lag_0_nonneg: "0 \<le> lag a 0"
  unfolding lag_0 by (rule sum_nonneg) simp

lemma lag_0_pos:
  assumes "\<exists>x \<in> set a. x \<noteq> 0"
  shows "0 < lag a 0"
proof -
  have "sum_list (map (\<lambda>x. x\<^sup>2) a) \<noteq> 0"
  proof
    assume "sum_list (map (\<lambda>x. x\<^sup>2) a) = 0"
    then have "\<forall>y \<in> set (map (\<lambda>x. x\<^sup>2) a). y = 0"
      by (subst (asm) sum_list_nonneg_eq_0_iff) auto
    then show False using assms by auto
  qed
  then show ?thesis using lag_0_nonneg [of a] by (simp add: lag_0_sum_list)
qed

lemma lag_bound: "\<bar>lag a j\<bar> \<le> lag a 0"
proof (cases "j \<le> length a")
  case False
  then show ?thesis using lag_0_nonneg [of a] by (simp add: lag_def)
next
  case True
  let ?n = "length a"
  have "\<bar>lag a j\<bar> \<le> (\<Sum>l = j..<?n. \<bar>a ! l * a ! (l - j)\<bar>)"
    unfolding lag_def by (rule sum_abs)
  also have "\<dots> \<le> (\<Sum>l = j..<?n. ((a ! l)\<^sup>2 + (a ! (l - j))\<^sup>2) / 2)"
  proof (rule sum_mono)
    fix l
    have "0 \<le> (\<bar>a ! l\<bar> - \<bar>a ! (l - j)\<bar>)\<^sup>2" by simp
    then show "\<bar>a ! l * a ! (l - j)\<bar> \<le> ((a ! l)\<^sup>2 + (a ! (l - j))\<^sup>2) / 2"
      by (simp add: power2_diff abs_mult)
  qed
  also have "\<dots> = ((\<Sum>l = j..<?n. (a ! l)\<^sup>2) + (\<Sum>l = j..<?n. (a ! (l - j))\<^sup>2)) / 2"
    by (simp add: sum.distrib sum_divide_distrib [symmetric])
  also have "(\<Sum>l = j..<?n. (a ! (l - j))\<^sup>2) = (\<Sum>l = 0..<?n - j. (a ! l)\<^sup>2)"
    using sum.shift_bounds_nat_ivl [of "\<lambda>l. (a ! (l - j))\<^sup>2" 0 j "?n - j"] True by simp
  also have "(\<Sum>l = j..<?n. (a ! l)\<^sup>2) \<le> lag a 0"
    unfolding lag_0 by (rule sum_mono2) auto
  also have "(\<Sum>l = 0..<?n - j. (a ! l)\<^sup>2) \<le> lag a 0"
    unfolding lag_0 by (rule sum_mono2) auto
  finally show ?thesis by simp
qed

lemma second_half_eq:
  assumes "a \<noteq> []"
  shows "drop (length (correlation_sums a a) div 2) (correlation_sums a a) = map (lag a) [0..<length a]"
    and "drop (length (correlation_sums a a) - length a) (correlation_sums a a) = map (lag a) [0..<length a]"
proof -
  let ?n = "length a"
  have n: "0 < ?n" using assms by simp
  have len: "length (correlation_sums a a) = ?n + ?n - 1"
    using assms by (simp add: correlation_sums_def Let_def)
  have h1: "length (correlation_sums a a) div 2 = ?n - 1" using n unfolding len by simp
  have h2: "length (correlation_sums a a) - ?n = ?n - 1" using n unfolding len by simp
  have "drop (?n - 1) (correlation_sums a a) = map (lag a) [0..<?n]"
  proof (rule nth_equalityI)
    show "length (drop (?n - 1) (correlation_sums a a)) = length (map (lag a) [0..<?n])"
      using n by (simp add: len)
  next
    fix i assume "i < length (drop (?n - 1) (correlation_sums a a))"
    then have i: "i < ?n" using n by (simp add: len)
    show "drop (?n - 1) (correlation_sums a a) ! i = map (lag a) [0..<?n] ! i"
      using second_half_nth [OF i] i by simp
  qed
  then show "drop (length (correlation_sums a a) div 2) (correlation_sums a a) = map (lag a) [0..<length a]"
    and "drop (length (correlation_sums a a) - length a) (correlation_sums a a) = map (lag a) [0..<length a]"
    unfolding h1 h2 by simp_all
qed

lemma fold_fmax_Some: "fold fmax (map Some xs) (Some m) = Some (fold max xs m)"
  by (induction xs arbitrary: m) simp_all

lemma np_max_abs:
  assumes "cs \<noteq> []"
  shows "np_max (map fabs (map Some cs)) = Some (Max (set (map abs cs)))"
proof -
  obtain c cs' where cs: "cs = c # cs'" using assms by (cases cs) auto
  have "map fabs (map Some cs') = map Some (map abs cs')" by simp
  then have "np_max (map fabs (map Some cs)) = Some (fold max (map abs cs') \<bar>c\<bar>)"
    unfolding cs by (simp add: fold_fmax_Some del: map_map)
  also have "fold max (map abs cs') \<bar>c\<bar> = Max (set (map abs cs))"
    unfolding cs using Max.set_eq_fold [of "\<bar>c\<bar>" "map abs cs'"] by simp
  finally show ?thesis .
qed

lemma max_abs_lag:
  assumes "a \<noteq> []"
  shows "Max (set (map abs (map (lag a) [0..<length a]))) = lag a 0"
proof (rule Max_eqI)
  show "finite (set (map abs (map (lag a) [0..<length a])))" by simp
next
  fix y assume "y \<in> set (map abs (map (lag a) [0..<length a]))"
  then show "y \<le> lag a 0" using lag_bound [of a] by auto
next
  have "\<bar>lag a 0\<bar> = lag a 0" using lag_0_nonneg [of a] by simp
  moreover have "0 \<in> set [0..<length a]" using assms by simp
  ultimately show "lag a 0 \<in> set (map abs (map (lag a) [0..<length a]))"
    by (metis (no_types, lifting) image_eqI list.set_map)
qed

section \<open>\<open>autocorrelation\<close>: properties\<close>

lemma upt_map_head:
  assumes "0 < n"
  shows "map f [0..<n] = f 0 # map f [1..<n]"
  using assms by (simp add: upt_conv_Cons)

lemma rev_arange_head:
  assumes "0 < n"
  shows "map real (rev [1..<Suc n]) = real n # map real (rev [1..<n])"
  using assms by simp

lemma centred_nonzero:
  assumes "\<exists>x \<in> set xs. \<exists>y \<in> set xs. x \<noteq> y"
  shows "\<exists>z \<in> set (map (\<lambda>x. x - m) xs). z \<noteq> (0::real)"
proof -
  from assms obtain x y where "x \<in> set xs" "y \<in> set xs" "x \<noteq> y" by blast
  then have "x - m \<noteq> 0 \<or> y - m \<noteq> 0" by auto
  then show ?thesis using \<open>x \<in> set xs\<close> \<open>y \<in> set xs\<close> by auto
qed

text \<open>
  C4. On a signal that is not constant, \<open>autocorrelation\<close> returns as many coefficients
  as the signal has samples, and the coefficient at lag 0 is 1 (exactly so in real
  arithmetic: the sum of the squared centred samples, divided by the variance times the
  number of samples).
\<close>

theorem autocorrelation_lag0:
  assumes "\<exists>x \<in> set signal. \<exists>y \<in> set signal. x \<noteq> y"
  shows "\<exists>cs. autocorrelation signal = Inr cs \<and> length cs = length signal \<and> cs ! 0 = Some 1"
proof -
  let ?n = "length signal"
  let ?m = "np_mean signal"
  let ?s = "map (\<lambda>x. x - ?m) signal"
  let ?S = "lag ?s 0"
  have ne: "signal \<noteq> []" using assms by auto
  then have n: "0 < ?n" by simp
  have sne: "?s \<noteq> []" using ne by simp
  have Spos: "0 < ?S"
    by (rule lag_0_pos [OF centred_nonzero [OF assms]])
  have "sum_list (map (\<lambda>x. \<bar>x - ?m\<bar>\<^sup>2) signal) = sum_list (map (\<lambda>x. x\<^sup>2) ?s)"
    by (simp add: comp_def)
  then have var: "np_var signal * real ?n = ?S"
    using n by (simp add: np_var_def np_mean_def [of "map _ signal"] lag_0_sum_list)
  have r: "drop (length (correlation_sums ?s ?s) - ?n) (correlation_sums ?s ?s) = map (lag ?s) [0..<?n]"
    using second_half_eq(2) [OF sne] by simp
  define cs where "cs = map2 (\<lambda>rk w. fdiv (Some rk) (Some (np_var signal * w)))
       (map (lag ?s) [0..<?n]) (map real (rev [1..<Suc ?n]))"
  have cf: "correlate_full ?s ?s = Inr (correlation_sums ?s ?s)"
    using ne by (simp add: correlate_full_def)
  have res: "autocorrelation signal = Inr cs"
    unfolding autocorrelation_def Let_def cf cs_def using r by simp
  have len: "length cs = ?n" by (simp add: cs_def del: upt_Suc)
  have "cs ! 0 = fdiv (Some ?S) (Some (np_var signal * real ?n))"
    using n unfolding cs_def upt_map_head [OF n] rev_arange_head [OF n] by simp
  then have "cs ! 0 = Some 1" using Spos unfolding var by simp
  then show ?thesis using res len by blast
qed

theorem autocorrelation_lag0_witness:
  "\<exists>cs. autocorrelation [1, 2, 3] = Inr cs \<and> length cs = length [1, 2, 3 :: real] \<and> cs ! 0 = Some 1"
  by (rule autocorrelation_lag0) (rule bexI [of _ 1], rule bexI [of _ 2], simp_all)


section \<open>\<open>autocorrelate\<close>: the coefficient at lag 0\<close>

lemma autocorrelate_coefficients:
  assumes "data \<noteq> []"
  shows "autocorrelate data u m =
     (case unbias_step u (map Some (map (lag data) [0..<length data])) of
        Inl e \<Rightarrow> Inl e
      | Inr unbiased \<Rightarrow>
          (case normalize_step m unbiased of
             Inl e \<Rightarrow> Inl e
           | Inr normalized \<Rightarrow> Inr (normalized, length data)))"
  unfolding autocorrelate_nonempty [OF assms] second_half_eq(1) [OF assms] ..

lemma lag_list_head:
  assumes "data \<noteq> []"
  shows "map (lag data) [0..<length data] = lag data 0 # map (lag data) [1..<length data]"
  using assms by (simp add: upt_conv_Cons)

lemma normalize_1_head:
  assumes "0 < c"
  shows "\<exists>cs. normalize_step (Some 1) (Some c # rest) = Inr cs \<and> cs ! 0 = Some 1"
  using assms by (simp add: normalize_step_def truthy_def)

lemma unbias_1_head:
  assumes "data \<noteq> []"
  shows "\<exists>rest. unbias_step (Some 1) (map Some (map (lag data) [0..<length data]))
     = Inr (Some (lag data 0 / real (length data)) # rest)"
proof -
  have n: "0 < length data" using assms by simp
  then have "[0..<length data] = 0 # [1..<length data]" by (simp add: upt_conv_Cons)
  then show ?thesis using n
    by (simp add: unbias_step_def truthy_def Let_def del: upt_Suc)
qed

lemma normalize_2_lag:
  assumes "\<exists>x \<in> set data. x \<noteq> 0"
  shows "normalize_step (Some 2) (map Some (map (lag data) [0..<length data]))
     = Inr (map Some (map (\<lambda>c. c / lag data 0) (map (lag data) [0..<length data])))"
proof -
  have ne: "data \<noteq> []" using assms by auto
  have pos: "0 < lag data 0" by (rule lag_0_pos [OF assms])
  have lne: "map (lag data) [0..<length data] \<noteq> []" using ne by simp
  have mx: "np_max (map fabs (map Some (map (lag data) [0..<length data]))) = Some (lag data 0)"
    unfolding np_max_abs [OF lne] max_abs_lag [OF ne] ..
  have "(map Some (map (lag data) [0..<length data]) = []) = False" using ne by simp
  then show ?thesis using pos
    unfolding normalize_step_def mx by (simp add: truthy_def comp_def)
qed

text \<open>
  C5, as the code has it. On a signal with a sample other than 0: with \<open>normalize=1\<close> and
  \<open>unbias\<close> \<open>None\<close> or 1 the coefficient at lag 0 is 1; with \<open>normalize=2\<close> and
  \<open>unbias=None\<close> the coefficient at lag 0 is 1 and no coefficient is larger in magnitude.
\<close>

theorem autocorrelate_lag0:
  assumes "\<exists>x \<in> set data. x \<noteq> 0"
  shows "(\<exists>cs. autocorrelate data None (Some 1) = Inr (cs, length data) \<and> cs ! 0 = Some 1)
     \<and> (\<exists>cs. autocorrelate data (Some 1) (Some 1) = Inr (cs, length data) \<and> cs ! 0 = Some 1)
     \<and> (\<exists>cs. autocorrelate data None (Some 2) = Inr (map Some cs, length data)
            \<and> cs ! 0 = 1 \<and> (\<forall>c \<in> set cs. \<bar>c\<bar> \<le> cs ! 0))"
proof (intro conjI)
  have ne: "data \<noteq> []" using assms by auto
  have n: "0 < length data" using ne by simp
  have pos: "0 < lag data 0" by (rule lag_0_pos [OF assms])
  note ac = autocorrelate_coefficients [OF ne]
  show "\<exists>cs. autocorrelate data None (Some 1) = Inr (cs, length data) \<and> cs ! 0 = Some 1"
  proof -
    have u: "unbias_step None (map Some (map (lag data) [0..<length data]))
        = Inr (Some (lag data 0) # map Some (map (lag data) [1..<length data]))"
      unfolding lag_list_head [OF ne] by (simp add: unbias_step_def truthy_def)
    from normalize_1_head [OF pos] obtain cs where
      "normalize_step (Some 1) (Some (lag data 0) # map Some (map (lag data) [1..<length data])) = Inr cs"
      "cs ! 0 = Some 1" by blast
    then show ?thesis unfolding ac u by simp
  qed
  show "\<exists>cs. autocorrelate data (Some 1) (Some 1) = Inr (cs, length data) \<and> cs ! 0 = Some 1"
  proof -
    from unbias_1_head [OF ne] obtain rest where
      u: "unbias_step (Some 1) (map Some (map (lag data) [0..<length data]))
        = Inr (Some (lag data 0 / real (length data)) # rest)" by blast
    have "0 < lag data 0 / real (length data)" using pos n by simp
    from normalize_1_head [OF this] obtain cs where
      "normalize_step (Some 1) (Some (lag data 0 / real (length data)) # rest) = Inr cs"
      "cs ! 0 = Some 1" by blast
    then show ?thesis unfolding ac u by simp
  qed
  show "\<exists>cs. autocorrelate data None (Some 2) = Inr (map Some cs, length data)
            \<and> cs ! 0 = 1 \<and> (\<forall>c \<in> set cs. \<bar>c\<bar> \<le> cs ! 0)"
  proof -
    let ?cs = "map (\<lambda>c. c / lag data 0) (map (lag data) [0..<length data])"
    have u: "unbias_step None (map Some (map (lag data) [0..<length data]))
        = Inr (map Some (map (lag data) [0..<length data]))"
      by (simp add: unbias_step_def truthy_def)
    have r: "autocorrelate data None (Some 2) = Inr (map Some ?cs, length data)"
      unfolding ac u using normalize_2_lag [OF assms] by simp
    have h: "?cs ! 0 = 1" using pos n by simp
    have b: "\<bar>c\<bar> \<le> 1" if "c \<in> set ?cs" for c
    proof -
      from that obtain j where "c = lag data j / lag data 0" by auto
      then show ?thesis using lag_bound [of data j] pos by simp
    qed
    show ?thesis using r h b by (intro exI [of _ ?cs]) simp
  qed
qed

theorem autocorrelate_lag0_witness:
  "(\<exists>cs. autocorrelate [1, 2] None (Some 1) = Inr (cs, length [1, 2 :: real]) \<and> cs ! 0 = Some 1)
     \<and> (\<exists>cs. autocorrelate [1, 2] (Some 1) (Some 1) = Inr (cs, length [1, 2 :: real]) \<and> cs ! 0 = Some 1)
     \<and> (\<exists>cs. autocorrelate [1, 2] None (Some 2) = Inr (map Some cs, length [1, 2 :: real])
            \<and> cs ! 0 = 1 \<and> \<bar>cs ! 1\<bar> \<le> cs ! 0)"
proof -
  have "\<exists>x \<in> set [1, 2 :: real]. x \<noteq> 0" by simp
  from autocorrelate_lag0 [OF this] obtain cs1 cs2 cs3 where
    a: "autocorrelate [1, 2] None (Some 1) = Inr (cs1, length [1, 2 :: real])" "cs1 ! 0 = Some 1"
    and b: "autocorrelate [1, 2] (Some 1) (Some 1) = Inr (cs2, length [1, 2 :: real])" "cs2 ! 0 = Some 1"
    and c: "autocorrelate [1, 2] None (Some 2) = Inr (map Some cs3, length [1, 2 :: real])"
      "cs3 ! 0 = 1" "\<forall>c \<in> set cs3. \<bar>c\<bar> \<le> cs3 ! 0"
    by blast
  have "autocorrelate [1, 2] None (Some 2) = Inr ([Some 1, Some (2 / 5)], 2)" by code_simp
  then have "length cs3 = 2" using c(1) by (auto dest: arg_cong [where f = length])
  then have "cs3 ! 1 \<in> set cs3" by simp
  then have "\<bar>cs3 ! 1\<bar> \<le> cs3 ! 0" using c(3) by blast
  then show ?thesis using a b c(1,2) by blast
qed

text \<open>
  C5 as stated fails. With \<open>normalize=2\<close> the coefficient at lag 0 is not the largest in
  magnitude once the coefficients are unbiased: \<open>[1, 0, 0, 1]\<close> with \<open>unbias=1\<close> gives
  \<open>1/2\<close> at lag 0 and 1 at lag 3, and \<open>[1, 2, 1]\<close> with \<open>unbias=2\<close> gives \<open>7/8\<close> at lag 0
  and 1 at lag 1. With \<open>normalize=1\<close>, \<open>[1, -1]\<close> with \<open>unbias=2\<close> gives \<open>-1\<close> at lag 0, and
  the signal \<open>[0]\<close> gives the quotient of 0 by 0.
\<close>

theorem autocorrelate_lag0_counterexample:
  "autocorrelate [1, 0, 0, 1] (Some 1) (Some 2) = Inr ([Some (1 / 2), Some 0, Some 0, Some 1], 4)
   \<and> autocorrelate [1, 2, 1] (Some 2) (Some 2) = Inr ([Some (7 / 8), Some 1, Some (7 / 8)], 3)
   \<and> autocorrelate [1, - 1] (Some 2) (Some 1) = Inr ([Some (- 1), Some (- 1)], 2)
   \<and> autocorrelate [0] None (Some 1) = Inr ([None], 1)"
  by code_simp


section \<open>\<open>compute_interpeak\<close>: properties\<close>



















end
